theory Spec2Isabelle
  imports Main "HOL-Library.Char_ord" "HOL-Library.List_Lexorder" "HOL-Library.Option_ord"
    "HOL-Library.Multiset"
begin

section \<open>Decoded JSON values and the Python operations the indexer applies to them\<close>

text \<open>
  The indexer reads line-delimited JSON. \<^verbatim>\<open>json.loads\<close> is a library function, so it is
  a parameter \<open>loads\<close> of the model: \<open>loads s = None\<close> stands for
  \<^verbatim>\<open>json.JSONDecodeError\<close>, \<open>loads s = Some v\<close> for the decoded value. A decoded
  value is \<^verbatim>\<open>None\<close>, a \<^verbatim>\<open>bool\<close>, an \<^verbatim>\<open>int\<close>, a \<^verbatim>\<open>str\<close>,
  a \<^verbatim>\<open>list\<close> or a \<^verbatim>\<open>dict\<close> (its items, keys distinct). Numbers with a fraction or an
  exponent (Python floats) are outside the value type, as is a decoder that raises
  anything but \<^verbatim>\<open>JSONDecodeError\<close>. A character is one code point in the range 0..255.
\<close>

datatype json =
    JNull
  | JBool bool
  | JInt int
  | JStr string
  | JArr "json list"
  | JObj "(string \<times> json) list"

text \<open>
  The exceptions that the modelled code can raise: a method missing on a value
  (\<^verbatim>\<open>.get\<close> on something that is not a dict), a type error (\<^verbatim>\<open>str.join\<close> on a
  non-string item, an unhashable dict key), a failure while opening or reading a file,
  the two errors of \<^verbatim>\<open>sqlite3\<close> parameter binding, and the error of a statement
  that SQLite rejects.
\<close>

datatype py_error =
    AttributeError
  | TypeError
  | OSError
  | ProgrammingError
  | OverflowError
  | OperationalError

text \<open>Truth value of a decoded value, as in \<^verbatim>\<open>if not x\<close>.\<close>

fun truthy :: "json \<Rightarrow> bool" where
  "truthy JNull = False"
| "truthy (JBool b) = b"
| "truthy (JInt n) = (n \<noteq> 0)"
| "truthy (JStr s) = (s \<noteq> [])"
| "truthy (JArr xs) = (xs \<noteq> [])"
| "truthy (JObj kvs) = (kvs \<noteq> [])"

text \<open>\<^verbatim>\<open>d.get(k, default)\<close> on the items of a dict.\<close>

definition dict_get :: "(string \<times> json) list \<Rightarrow> string \<Rightarrow> json \<Rightarrow> json" where
  "dict_get kvs k d = (case map_of kvs k of None \<Rightarrow> d | Some v \<Rightarrow> v)"

text \<open>
  \<^verbatim>\<open>str(x)\<close>: a string is returned as it is; for every other decoded value
  \<^verbatim>\<open>str\<close> is \<^verbatim>\<open>repr\<close>, a parameter of the model.
\<close>

definition py_str :: "(json \<Rightarrow> string) \<Rightarrow> json \<Rightarrow> string" where
  "py_str repr v = (case v of JStr s \<Rightarrow> s | _ \<Rightarrow> repr v)"

fun join_strs :: "string \<Rightarrow> string list \<Rightarrow> string" where
  "join_strs sep [] = []"
| "join_strs sep [x] = x"
| "join_strs sep (x # y # ys) = x @ sep @ join_strs sep (y # ys)"

fun as_str :: "json \<Rightarrow> string option" where
  "as_str (JStr s) = Some s"
| "as_str _ = None"

text \<open>\<^verbatim>\<open>sep.join(items)\<close> raises \<^verbatim>\<open>TypeError\<close> when an item is not a string.\<close>

definition py_join :: "string \<Rightarrow> json list \<Rightarrow> py_error + string" where
  "py_join sep items =
     (case those (map as_str items) of
        None \<Rightarrow> Inl TypeError
      | Some ss \<Rightarrow> Inr (join_strs sep ss))"

text \<open>\<^verbatim>\<open>str.strip()\<close>: the whitespace code points below 256.\<close>

definition is_space :: "char \<Rightarrow> bool" where
  "is_space c = ((of_char c :: nat) \<in> set [9, 10, 11, 12, 13, 28, 29, 30, 31, 32, 133, 160])"

definition strip :: "string \<Rightarrow> string" where
  "strip s = rev (dropWhile is_space (rev (dropWhile is_space s)))"

text \<open>
  Keys of a Python dict: lists and dicts are unhashable; \<^verbatim>\<open>True\<close> and \<^verbatim>\<open>1\<close> are the
  same key (as are \<^verbatim>\<open>False\<close> and \<^verbatim>\<open>0\<close>).
\<close>

fun hashable :: "json \<Rightarrow> bool" where
  "hashable (JArr xs) = False"
| "hashable (JObj kvs) = False"
| "hashable _ = True"

fun py_key :: "json \<Rightarrow> json" where
  "py_key (JBool b) = JInt (if b then 1 else 0)"
| "py_key v = v"

definition key_eq :: "json \<Rightarrow> json \<Rightarrow> bool" where
  "key_eq a b = (py_key a = py_key b)"

section \<open>Content normalisation: \<^verbatim>\<open>extract_content\<close>\<close>

text \<open>
  The loop over the blocks of a list-valued \<open>content\<close>, with its two accumulators
  \<open>text_parts\<close> and \<open>tool_names\<close>. A block that is not a dict, or whose type is none
  of the three, is passed over.
\<close>

fun scan_blocks :: "(json \<Rightarrow> string) \<Rightarrow> json list \<Rightarrow> json list \<Rightarrow> json list \<Rightarrow> json list \<times> json list" where
  "scan_blocks repr [] text_parts tool_names = (text_parts, tool_names)"
| "scan_blocks repr (block # rest) text_parts tool_names =
     (case block of
        JObj b \<Rightarrow>
          (if dict_get b ''type'' JNull = JStr ''text''
             then scan_blocks repr rest (text_parts @ [dict_get b ''text'' (JStr [])]) tool_names
           else if dict_get b ''type'' JNull = JStr ''tool_use''
             then scan_blocks repr rest text_parts (tool_names @ [dict_get b ''name'' (JStr [])])
           else if dict_get b ''type'' JNull = JStr ''tool_result''
             then scan_blocks repr rest
                    (text_parts @ [JStr (take 500 (py_str repr (dict_get b ''content'' (JStr []))))])
                    tool_names
           else scan_blocks repr rest text_parts tool_names)
      | _ \<Rightarrow> scan_blocks repr rest text_parts tool_names)"

text \<open>
  \<^verbatim>\<open>extract_content(message_obj)\<close> returns \<open>(content, model, tool_names)\<close>. A falsy
  \<open>message_obj\<close> gives the empty triple; a truthy one that is not a dict has no
  \<^verbatim>\<open>.get\<close>; the join of the text parts raises when a part is not a string.
\<close>

definition extract_content :: "(json \<Rightarrow> string) \<Rightarrow> json \<Rightarrow> py_error + (string \<times> json \<times> json list)" where
  "extract_content repr message_obj =
     (if \<not> truthy message_obj then Inr ([], JStr [], [])
      else case message_obj of
        JObj m \<Rightarrow>
          (case dict_get m ''content'' (JStr []) of
             JArr blocks \<Rightarrow>
               (case scan_blocks repr blocks [] [] of
                  (text_parts, tool_names) \<Rightarrow>
                    (case py_join [CHR 0x0A] text_parts of
                       Inl e \<Rightarrow> Inl e
                     | Inr content \<Rightarrow> Inr (content, dict_get m ''model'' (JStr []), tool_names)))
           | content \<Rightarrow> Inr (py_str repr content, dict_get m ''model'' (JStr []), []))
      | _ \<Rightarrow> Inl AttributeError)"

section \<open>The parse phase of \<^verbatim>\<open>index_jsonl\<close>\<close>

text \<open>The per-session summary kept while one file is scanned.\<close>

record sdata =
  sd_project :: json
  sd_cwd :: json
  sd_git_branch :: json
  sd_first_ts :: json
  sd_last_ts :: json
  sd_count :: nat

text \<open>One element of the \<open>messages\<close> list built by the parse phase.\<close>

record message =
  msg_uuid :: json
  msg_session_id :: json
  msg_parent_uuid :: json
  msg_type :: json
  msg_role :: json
  msg_content :: string
  msg_timestamp :: json
  msg_model :: json
  msg_tool_names :: string

text \<open>
  \<open>session_data\<close> is a Python dict: its items in insertion order, looked up with the
  key equality of Python.
\<close>

type_synonym session_dict = "(json \<times> sdata) list"

definition dict_has :: "session_dict \<Rightarrow> json \<Rightarrow> bool" where
  "dict_has sd k = list_ex (\<lambda>(k', d). key_eq k' k) sd"

fun dict_upd :: "(sdata \<Rightarrow> sdata) \<Rightarrow> json \<Rightarrow> session_dict \<Rightarrow> session_dict" where
  "dict_upd f k [] = []"
| "dict_upd f k ((k', d) # rest) =
     (if key_eq k' k then (k', f d) # rest else (k', d) # dict_upd f k rest)"

text \<open>
  ``Track session metadata'': a new session takes every field from this entry; a known
  one has its \<open>last_ts\<close> overwritten; the count goes up by one in both cases.
\<close>

definition track_session :: "(string \<times> json) list \<Rightarrow> json \<Rightarrow> session_dict \<Rightarrow> session_dict" where
  "track_session entry session_id session_data =
     (if \<not> dict_has session_data session_id
        then session_data @
               [(session_id,
                 \<lparr>sd_project = dict_get entry ''cwd'' (JStr []),
                  sd_cwd = dict_get entry ''cwd'' (JStr []),
                  sd_git_branch = dict_get entry ''gitBranch'' (JStr []),
                  sd_first_ts = dict_get entry ''timestamp'' (JStr []),
                  sd_last_ts = dict_get entry ''timestamp'' (JStr []),
                  sd_count = 0 + 1\<rparr>)]
      else dict_upd (\<lambda>d. d\<lparr>sd_last_ts := dict_get entry ''timestamp'' (JStr []),
                             sd_count := sd_count d + 1\<rparr>) session_id session_data)"

text \<open>
  The body of the loop over the lines of a file. \<open>Inr\<close> is the state after the line
  (unchanged where the source says \<^verbatim>\<open>continue\<close>), \<open>Inl\<close> an exception that leaves
  the loop.
\<close>

definition process_line ::
  "(string \<Rightarrow> json option) \<Rightarrow> (json \<Rightarrow> string) \<Rightarrow> string \<Rightarrow>
     session_dict \<times> message list \<Rightarrow> py_error + (session_dict \<times> message list)" where
  "process_line loads repr raw acc =
     (case acc of (session_data, messages) \<Rightarrow>
      if strip raw = [] then Inr acc
      else
        (case loads (strip raw) of
           None \<Rightarrow> Inr acc
         | Some decoded \<Rightarrow>
             (case decoded of
                JObj entry \<Rightarrow>
                  (let entry_type = dict_get entry ''type'' (JStr []);
                       session_id = dict_get entry ''sessionId'' (JStr []);
                       msg_obj = dict_get entry ''message'' (JObj [])
                   in
                   if entry_type \<notin> set [JStr ''user'', JStr ''assistant'', JStr ''summary'']
                     then Inr acc
                   else if \<not> truthy session_id then Inr acc
                   else if \<not> hashable session_id then Inl TypeError
                   else
                     (let session_data' = track_session entry session_id session_data in
                      case extract_content repr msg_obj of
                        Inl e \<Rightarrow> Inl e
                      | Inr (content, model, tool_names) \<Rightarrow>
                          (case msg_obj of
                             JObj m \<Rightarrow>
                               (case py_join '','' tool_names of
                                  Inl e \<Rightarrow> Inl e
                                | Inr names \<Rightarrow>
                                    Inr (session_data',
                                         messages @
                                           [\<lparr>msg_uuid = dict_get entry ''uuid'' (JStr []),
                                             msg_session_id = session_id,
                                             msg_parent_uuid = dict_get entry ''parentUuid'' (JStr []),
                                             msg_type = entry_type,
                                             msg_role = dict_get m ''role'' (JStr []),
                                             msg_content = content,
                                             msg_timestamp = dict_get entry ''timestamp'' (JStr []),
                                             msg_model = model,
                                             msg_tool_names = names\<rparr>]))
                           | _ \<Rightarrow> Inl AttributeError)))
              | _ \<Rightarrow> Inl AttributeError)))"

text \<open>
  What reading a file yields, in order: a line, or a failure of \<^verbatim>\<open>open\<close> or of the
  iteration (an unreadable file is the one-element list \<open>[ReadError]\<close>).
\<close>

datatype read = Line string | ReadError

fun parse_lines ::
  "(string \<Rightarrow> json option) \<Rightarrow> (json \<Rightarrow> string) \<Rightarrow> read list \<Rightarrow>
     session_dict \<times> message list \<Rightarrow> py_error + (session_dict \<times> message list)" where
  "parse_lines loads repr [] acc = Inr acc"
| "parse_lines loads repr (ReadError # rest) acc = Inl OSError"
| "parse_lines loads repr (Line raw # rest) acc =
     (case process_line loads repr raw acc of
        Inl e \<Rightarrow> Inl e
      | Inr acc' \<Rightarrow> parse_lines loads repr rest acc')"

section \<open>The durable store\<close>

text \<open>
  Every text column of the two tables has affinity TEXT, so a stored value is NULL
  (\<open>None\<close>) or a text: an integer parameter is stored as its decimal text.
  \<open>message_count\<close> is an integer column; a count is at most the number of lines of
  the files read, far below the 64-bit limit, so it is an unbounded \<open>int\<close> here.
\<close>

type_synonym sqltext = "string option"

record session_row =
  s_session_id :: sqltext
  s_project :: sqltext
  s_cwd :: sqltext
  s_git_branch :: sqltext
  s_first_ts :: sqltext
  s_last_ts :: sqltext
  s_message_count :: int

record message_row =
  m_uuid :: sqltext
  m_session_id :: sqltext
  m_parent_uuid :: sqltext
  m_type :: sqltext
  m_role :: sqltext
  m_content :: sqltext
  m_timestamp :: sqltext
  m_model :: sqltext
  m_tool_names :: sqltext

text \<open>
  The database: the rows of \<open>sessions\<close> and of \<open>messages\<close> in rowid order, and the
  postings of the full-text index \<open>messages_fts\<close> (uuid and content), in the order in
  which the trigger \<open>messages_ai\<close> wrote them.
\<close>

record db =
  sessions :: "session_row list"
  messages :: "message_row list"
  messages_fts :: "(sqltext \<times> sqltext) list"

definition init_db :: db where
  "init_db = \<lparr>sessions = [], messages = [], messages_fts = []\<rparr>"

record stats =
  n_files :: nat
  n_sessions :: nat
  n_messages :: nat
  n_errors :: nat

subsection \<open>Binding Python values to statement parameters\<close>

fun nat_text :: "nat \<Rightarrow> string" where
  "nat_text n =
     (if n < 10 then [char_of (48 + n)]
      else nat_text (n div 10) @ [char_of (48 + n mod 10)])"

declare nat_text.simps [simp del]

definition int_text :: "int \<Rightarrow> string" where
  "int_text i = (if i < 0 then CHR ''-'' # nat_text (nat (- i)) else nat_text (nat i))"

text \<open>
  \<^verbatim>\<open>sqlite3\<close> binds \<^verbatim>\<open>None\<close>, \<^verbatim>\<open>int\<close> (also \<^verbatim>\<open>bool\<close>) and \<^verbatim>\<open>str\<close>; a
  list or a dict raises \<^verbatim>\<open>ProgrammingError\<close>, an integer outside 64 bits
  \<^verbatim>\<open>OverflowError\<close>. The result is the value as a TEXT column stores it.
\<close>

fun bind_text :: "json \<Rightarrow> py_error + sqltext" where
  "bind_text JNull = Inr None"
| "bind_text (JBool b) = Inr (Some (if b then ''1'' else ''0''))"
| "bind_text (JInt n) =
     (if - (2 ^ 63) \<le> n \<and> n < 2 ^ 63 then Inr (Some (int_text n)) else Inl OverflowError)"
| "bind_text (JStr s) = Inr (Some s)"
| "bind_text (JArr xs) = Inl ProgrammingError"
| "bind_text (JObj kvs) = Inl ProgrammingError"

text \<open>Sequencing of steps that may raise.\<close>

definition and_then :: "'e + 'a \<Rightarrow> ('a \<Rightarrow> 'e + 'b) \<Rightarrow> 'e + 'b" where
  "and_then r f = (case r of Inl e \<Rightarrow> Inl e | Inr x \<Rightarrow> f x)"

subsection \<open>Sessions: insert, or merge on conflict\<close>

text \<open>The scalar \<open>MAX\<close> of SQLite: NULL when an argument is NULL.\<close>

fun sql_max :: "sqltext \<Rightarrow> sqltext \<Rightarrow> sqltext" where
  "sql_max (Some a) (Some b) = Some (max a b)"
| "sql_max _ _ = None"

text \<open>
  \<^verbatim>\<open>INSERT INTO sessions ... ON CONFLICT(session_id) DO UPDATE SET last_ts = MAX(last_ts,
  excluded.last_ts), message_count = message_count + excluded.message_count\<close>. A NULL key
  conflicts with nothing.
\<close>

definition upsert_session :: "session_row \<Rightarrow> session_row list \<Rightarrow> session_row list" where
  "upsert_session new rows =
     (if s_session_id new \<noteq> None \<and> s_session_id new \<in> set (map s_session_id rows)
        then map (\<lambda>r. if s_session_id r = s_session_id new
                        then r\<lparr>s_last_ts := sql_max (s_last_ts r) (s_last_ts new),
                               s_message_count := s_message_count r + s_message_count new\<rparr>
                        else r) rows
      else rows @ [new])"

definition bind_session :: "json \<Rightarrow> sdata \<Rightarrow> py_error + session_row" where
  "bind_session sid sdata =
     and_then (bind_text sid) (\<lambda>k.
     and_then (bind_text (sd_project sdata)) (\<lambda>p.
     and_then (bind_text (sd_cwd sdata)) (\<lambda>c.
     and_then (bind_text (sd_git_branch sdata)) (\<lambda>g.
     and_then (bind_text (sd_first_ts sdata)) (\<lambda>f.
     and_then (bind_text (sd_last_ts sdata)) (\<lambda>l.
       Inr \<lparr>s_session_id = k, s_project = p, s_cwd = c, s_git_branch = g,
            s_first_ts = f, s_last_ts = l, s_message_count = int (sd_count sdata)\<rparr>))))))"

text \<open>
  The loop ``Insert sessions''. It has no handler: an exception of the binding leaves
  \<^verbatim>\<open>index_jsonl\<close>.
\<close>

fun insert_sessions :: "session_dict \<Rightarrow> db \<times> stats \<Rightarrow> py_error + (db \<times> stats)" where
  "insert_sessions [] (d, st) = Inr (d, st)"
| "insert_sessions ((sid, sdata) # rest) (d, st) =
     (case bind_session sid sdata of
        Inl e \<Rightarrow> Inl e
      | Inr row \<Rightarrow>
          insert_sessions rest
            (d\<lparr>sessions := upsert_session row (sessions d)\<rparr>, st\<lparr>n_sessions := n_sessions st + 1\<rparr>))"

subsection \<open>Messages: insert or ignore, and the trigger that feeds the index\<close>

text \<open>The trigger \<open>messages_ai\<close>: after an insert on \<open>messages\<close>, one posting.\<close>

definition messages_ai :: "message_row \<Rightarrow> db \<Rightarrow> db" where
  "messages_ai new d = d\<lparr>messages_fts := messages_fts d @ [(m_uuid new, m_content new)]\<rparr>"

text \<open>
  \<^verbatim>\<open>INSERT OR IGNORE INTO messages\<close>: \<open>uuid\<close> is the primary key of an ordinary rowid
  table, so a row whose uuid is already stored is ignored and no trigger runs. SQLite
  admits NULL in such a key and treats NULLs as distinct: a NULL uuid conflicts with
  nothing.
\<close>

definition insert_or_ignore :: "message_row \<Rightarrow> db \<Rightarrow> db" where
  "insert_or_ignore new d =
     (if m_uuid new \<noteq> None \<and> m_uuid new \<in> set (map m_uuid (messages d)) then d
      else messages_ai new (d\<lparr>messages := messages d @ [new]\<rparr>))"

definition bind_message :: "message \<Rightarrow> py_error + message_row" where
  "bind_message msg =
     and_then (bind_text (msg_uuid msg)) (\<lambda>u.
     and_then (bind_text (msg_session_id msg)) (\<lambda>s.
     and_then (bind_text (msg_parent_uuid msg)) (\<lambda>p.
     and_then (bind_text (msg_type msg)) (\<lambda>t.
     and_then (bind_text (msg_role msg)) (\<lambda>r.
     and_then (bind_text (msg_timestamp msg)) (\<lambda>ts.
     and_then (bind_text (msg_model msg)) (\<lambda>mo.
       Inr \<lparr>m_uuid = u, m_session_id = s, m_parent_uuid = p, m_type = t, m_role = r,
            m_content = Some (msg_content msg), m_timestamp = ts, m_model = mo,
            m_tool_names = Some (msg_tool_names msg)\<rparr>)))))))"

text \<open>
  One round of the loop ``Insert messages'': an exception of the statement is swallowed
  (\<^verbatim>\<open>except Exception: pass\<close>); otherwise the counter goes up, whether or not a row was
  added.
\<close>

definition insert_message :: "message \<Rightarrow> db \<times> stats \<Rightarrow> db \<times> stats" where
  "insert_message msg acc =
     (case acc of (d, st) \<Rightarrow>
        (case bind_message msg of
           Inl e \<Rightarrow> (d, st)
         | Inr row \<Rightarrow> (insert_or_ignore row d, st\<lparr>n_messages := n_messages st + 1\<rparr>)))"

fun insert_messages :: "message list \<Rightarrow> db \<times> stats \<Rightarrow> db \<times> stats" where
  "insert_messages [] acc = acc"
| "insert_messages (msg # rest) acc = insert_messages rest (insert_message msg acc)"

section \<open>\<^verbatim>\<open>index_jsonl\<close> and the loop over the files\<close>

text \<open>
  The parse phase runs inside \<^verbatim>\<open>try\<close>: any exception counts one error and returns
  before the write phase. \<open>Inl\<close> is an exception that leaves \<^verbatim>\<open>index_jsonl\<close>.
\<close>

definition index_jsonl ::
  "(string \<Rightarrow> json option) \<Rightarrow> (json \<Rightarrow> string) \<Rightarrow> read list \<Rightarrow> db \<times> stats \<Rightarrow> py_error + (db \<times> stats)" where
  "index_jsonl loads repr file acc =
     (case acc of (d, st) \<Rightarrow>
        (case parse_lines loads repr file ([], []) of
           Inl e \<Rightarrow> Inr (d, st\<lparr>n_errors := n_errors st + 1\<rparr>)
         | Inr (session_data, msgs) \<Rightarrow>
             (case insert_sessions session_data (d, st) of
                Inl e \<Rightarrow> Inl e
              | Inr acc1 \<Rightarrow>
                  (case insert_messages msgs acc1 of
                     (d2, st2) \<Rightarrow> Inr (d2, st2\<lparr>n_files := n_files st2 + 1\<rparr>)))))"

text \<open>
  The loop of \<^verbatim>\<open>cmd_index\<close> and of \<^verbatim>\<open>main\<close> over the files found. All statements run on
  one connection, so the commits in between change nothing that a later statement sees.
\<close>

fun index_files ::
  "(string \<Rightarrow> json option) \<Rightarrow> (json \<Rightarrow> string) \<Rightarrow> read list list \<Rightarrow> db \<times> stats \<Rightarrow> py_error + (db \<times> stats)" where
  "index_files loads repr [] acc = Inr acc"
| "index_files loads repr (file # rest) acc =
     (case index_jsonl loads repr file acc of
        Inl e \<Rightarrow> Inl e
      | Inr acc' \<Rightarrow> index_files loads repr rest acc')"

definition stats0 :: stats where
  "stats0 = \<lparr>n_files = 0, n_sessions = 0, n_messages = 0, n_errors = 0\<rparr>"

section \<open>The query engine\<close>

subsection \<open>Full-text search: \<^verbatim>\<open>cmd_search\<close> and \<^verbatim>\<open>search\<close>\<close>















subsection \<open>Showing a session: \<^verbatim>\<open>cmd_show\<close> and \<^verbatim>\<open>show_session\<close>\<close>









text \<open>The display limit: content beyond \<open>n\<close> characters is cut and a marker appended.\<close>

definition display :: "nat \<Rightarrow> string \<Rightarrow> string \<Rightarrow> string" where
  "display n marker content = (if length content > n then take n content @ marker else content)"








section \<open>Predicates of the properties\<close>

text \<open>
  The index moves in lockstep with the table: its postings are, in order, the uuid and
  content of the rows.
\<close>

definition index_synced :: "db \<Rightarrow> bool" where
  "index_synced d = (messages_fts d = map (\<lambda>r. (m_uuid r, m_content r)) (messages d))"

text \<open>No two rows of \<open>messages\<close> carry the same uuid.\<close>

definition uuid_unique :: "db \<Rightarrow> bool" where
  "uuid_unique d = distinct (filter (\<lambda>u. u \<noteq> None) (map m_uuid (messages d)))"

text \<open>
  The bijection between index and table, in the words of the specification: a row with
  uuid \<open>u\<close> has exactly one posting for \<open>u\<close>, which holds the content of that row, and a
  posting for \<open>u\<close> has a row with uuid \<open>u\<close>.
\<close>

definition index_bijection :: "db \<Rightarrow> bool" where
  "index_bijection d =
     ((\<forall>r \<in> set (messages d). \<forall>u. m_uuid r = Some u \<longrightarrow>
          filter (\<lambda>p. fst p = Some u) (messages_fts d) = [(Some u, m_content r)])
      \<and> (\<forall>p \<in> set (messages_fts d). \<forall>u. fst p = Some u \<longrightarrow>
          Some u \<in> set (map m_uuid (messages d))))"

text \<open>The messages that the parse phase of a file hands to the write phase.\<close>

definition retained :: "(string \<Rightarrow> json option) \<Rightarrow> (json \<Rightarrow> string) \<Rightarrow> read list \<Rightarrow> message list" where
  "retained loads repr f =
     (case parse_lines loads repr f ([], []) of
        Inl e \<Rightarrow> []
      | Inr (session_data, msgs) \<Rightarrow> msgs)"






text \<open>The row that \<^verbatim>\<open>DO UPDATE SET\<close> leaves for a stored row \<open>r\<close> and an incoming row.\<close>

definition merged :: "session_row \<Rightarrow> session_row \<Rightarrow> session_row" where
  "merged r new = r\<lparr>s_last_ts := sql_max (s_last_ts r) (s_last_ts new),
                   s_message_count := s_message_count r + s_message_count new\<rparr>"

text \<open>
  \<open>first_ts \<le> last_ts\<close> on a stored row, both being texts, in the order of the texts; the
  same order on two timestamps of the input, for the texts they are stored as, and on an
  entry of a session dict.
\<close>

definition ts_ordered :: "session_row \<Rightarrow> bool" where
  "ts_ordered r =
     (case (s_first_ts r, s_last_ts r) of (Some a, Some b) \<Rightarrow> a \<le> b | _ \<Rightarrow> False)"

definition ts_le :: "json \<Rightarrow> json \<Rightarrow> bool" where
  "ts_le a b =
     (case (bind_text a, bind_text b) of
        (Inr (Some x), Inr (Some y)) \<Rightarrow> x \<le> y
      | _ \<Rightarrow> False)"

definition entry_ordered :: "sdata \<Rightarrow> bool" where
  "entry_ordered sdata = ts_le (sd_first_ts sdata) (sd_last_ts sdata)"

text \<open>
  The retained events of one session, in file order; a file is \<open>pass_ordered\<close> when, for
  every retained event, the first retained event of its session has a timestamp that is
  at most the timestamp of the last one.
\<close>

definition session_events :: "message list \<Rightarrow> json \<Rightarrow> message list" where
  "session_events msgs sid = filter (\<lambda>m. key_eq (msg_session_id m) sid) msgs"

definition session_ordered :: "message list \<Rightarrow> message \<Rightarrow> bool" where
  "session_ordered msgs m =
     ts_le (msg_timestamp (hd (session_events msgs (msg_session_id m))))
           (msg_timestamp (last (session_events msgs (msg_session_id m))))"

definition pass_ordered :: "(string \<Rightarrow> json option) \<Rightarrow> (json \<Rightarrow> string) \<Rightarrow> read list \<Rightarrow> bool" where
  "pass_ordered loads repr f =
     list_all (session_ordered (retained loads repr f)) (retained loads repr f)"

text \<open>
  What the session dict of a pass holds about the retained events: every entry has
  events, its \<open>first_ts\<close> and \<open>last_ts\<close> are the timestamps of the first and of the last
  of them, and its count is their number; no two entries have the same key; every
  retained event has its entry.
\<close>

definition entry_of_events :: "session_dict \<Rightarrow> message list \<Rightarrow> bool" where
  "entry_of_events sd msgs =
     (\<forall>(sid, d) \<in> set sd.
        session_events msgs sid \<noteq> []
        \<and> sd_first_ts d = msg_timestamp (hd (session_events msgs sid))
        \<and> sd_last_ts d = msg_timestamp (last (session_events msgs sid))
        \<and> sd_count d = length (session_events msgs sid))"

definition keys_distinct :: "session_dict \<Rightarrow> bool" where
  "keys_distinct sd = distinct (map (\<lambda>(k, d). py_key k) sd)"

definition pass_inv :: "session_dict \<times> message list \<Rightarrow> bool" where
  "pass_inv acc =
     (case acc of (sd, msgs) \<Rightarrow>
        entry_of_events sd msgs \<and> keys_distinct sd
        \<and> (\<forall>m \<in> set msgs. dict_has sd (msg_session_id m)))"

text \<open>
  The lines that the loop passes over with \<^verbatim>\<open>continue\<close>: a blank line, a line that
  \<^verbatim>\<open>json.loads\<close> rejects, a decoded record whose type is none of the three, and a
  decoded record without a (truthy) \<open>sessionId\<close>.
\<close>

definition discarded_line :: "(string \<Rightarrow> json option) \<Rightarrow> string \<Rightarrow> bool" where
  "discarded_line loads raw =
     (strip raw = []
      \<or> (case loads (strip raw) of
            None \<Rightarrow> True
          | Some (JObj entry) \<Rightarrow>
              dict_get entry ''type'' (JStr []) \<notin> set [JStr ''user'', JStr ''assistant'', JStr ''summary'']
              \<or> \<not> truthy (dict_get entry ''sessionId'' (JStr []))
          | Some _ \<Rightarrow> False))"

fun kept :: "(string \<Rightarrow> json option) \<Rightarrow> read \<Rightarrow> bool" where
  "kept loads (Line raw) = (\<not> discarded_line loads raw)"
| "kept loads ReadError = True"

text \<open>
  The contributions of one block, in the words of the specification: a text block
  contributes its text, a tool-result block its content coerced to a string and cut to
  its first 500 characters, a tool-invocation block its name to the list of tool names,
  anything else nothing.
\<close>

definition block_type :: "json \<Rightarrow> json" where
  "block_type block = (case block of JObj b \<Rightarrow> dict_get b ''type'' JNull | _ \<Rightarrow> JNull)"






section \<open>Example inputs\<close>

text \<open>
  The compact JSON text of a value (for values whose strings need no escape), and a
  decoder for examples: \<open>loads_of vs\<close> decodes exactly the texts of the values \<open>vs\<close> and
  rejects every other line.
\<close>

fun dumps :: "json \<Rightarrow> string"
  and dumps_list :: "json list \<Rightarrow> string"
  and dumps_items :: "(string \<times> json) list \<Rightarrow> string" where
  "dumps JNull = ''null''"
| "dumps (JBool b) = (if b then ''true'' else ''false'')"
| "dumps (JInt n) = int_text n"
| "dumps (JStr s) = [CHR 0x22] @ s @ [CHR 0x22]"
| "dumps (JArr xs) = ''['' @ dumps_list xs @ '']''"
| "dumps (JObj kvs) = ''{'' @ dumps_items kvs @ ''}''"
| "dumps_list [] = []"
| "dumps_list [x] = dumps x"
| "dumps_list (x # y # ys) = dumps x @ '', '' @ dumps_list (y # ys)"
| "dumps_items [] = []"
| "dumps_items [(k, v)] = [CHR 0x22] @ k @ [CHR 0x22] @ '': '' @ dumps v"
| "dumps_items ((k, v) # kv # kvs) =
     [CHR 0x22] @ k @ [CHR 0x22] @ '': '' @ dumps v @ '', '' @ dumps_items (kv # kvs)"

definition loads_of :: "json list \<Rightarrow> string \<Rightarrow> json option" where
  "loads_of vs s = map_of (map (\<lambda>v. (dumps v, v)) vs) s"

definition repr0 :: "json \<Rightarrow> string" where
  "repr0 v = ''<repr>''"

text \<open>The record of the first scenario of the specification, and a later one of the same session.\<close>

definition entry_U1 :: json where
  "entry_U1 =
     JObj [(''type'', JStr ''user''), (''sessionId'', JStr ''S1''), (''uuid'', JStr ''U1''),
           (''timestamp'', JStr ''2024-01-01T00:00:00Z''),
           (''message'', JObj [(''role'', JStr ''user''), (''content'', JStr ''hello world'')])]"

definition entry_U2 :: json where
  "entry_U2 =
     JObj [(''type'', JStr ''assistant''), (''sessionId'', JStr ''S1''), (''uuid'', JStr ''U2''),
           (''timestamp'', JStr ''2024-01-02T00:00:00Z''),
           (''message'', JObj [(''role'', JStr ''assistant''), (''content'', JStr ''hello again'')])]"

text \<open>The store after indexing the first scenario's record.\<close>

definition row_U1 :: message_row where
  "row_U1 =
     \<lparr>m_uuid = Some ''U1'', m_session_id = Some ''S1'', m_parent_uuid = Some [],
      m_type = Some ''user'', m_role = Some ''user'', m_content = Some ''hello world'',
      m_timestamp = Some ''2024-01-01T00:00:00Z'', m_model = Some [], m_tool_names = Some []\<rparr>"

definition db_U1 :: db where
  "db_U1 =
     \<lparr>sessions =
        [\<lparr>s_session_id = Some ''S1'', s_project = Some [], s_cwd = Some [], s_git_branch = Some [],
          s_first_ts = Some ''2024-01-01T00:00:00Z'', s_last_ts = Some ''2024-01-01T00:00:00Z'',
          s_message_count = 1\<rparr>],
      messages = [row_U1],
      messages_fts = [(Some ''U1'', Some ''hello world'')]\<rparr>"

text \<open>A message with the uuid of \<open>row_U1\<close> and every other field different.\<close>

definition msg_U1_changed :: message where
  "msg_U1_changed =
     \<lparr>msg_uuid = JStr ''U1'', msg_session_id = JStr ''S9'', msg_parent_uuid = JNull,
      msg_type = JStr ''assistant'', msg_role = JStr ''assistant'', msg_content = ''other text'',
      msg_timestamp = JStr ''2025-06-01T00:00:00Z'', msg_model = JStr ''m'', msg_tool_names = ''Bash''\<rparr>"

text \<open>The store after indexing the first scenario's record twice.\<close>

definition db_U1_twice :: db where
  "db_U1_twice =
     \<lparr>sessions =
        [\<lparr>s_session_id = Some ''S1'', s_project = Some [], s_cwd = Some [], s_git_branch = Some [],
          s_first_ts = Some ''2024-01-01T00:00:00Z'', s_last_ts = Some ''2024-01-01T00:00:00Z'',
          s_message_count = 2\<rparr>],
      messages = [row_U1],
      messages_fts = [(Some ''U1'', Some ''hello world'')]\<rparr>"




text \<open>The second record as a row; session S1 with given timestamps and count.\<close>

definition row_U2 :: message_row where
  "row_U2 =
     \<lparr>m_uuid = Some ''U2'', m_session_id = Some ''S1'', m_parent_uuid = Some [],
      m_type = Some ''assistant'', m_role = Some ''assistant'', m_content = Some ''hello again'',
      m_timestamp = Some ''2024-01-02T00:00:00Z'', m_model = Some [], m_tool_names = Some []\<rparr>"

definition session_S1_ts :: "string \<Rightarrow> string \<Rightarrow> int \<Rightarrow> session_row" where
  "session_S1_ts t1 t2 n =
     \<lparr>s_session_id = Some ''S1'', s_project = Some [], s_cwd = Some [], s_git_branch = Some [],
      s_first_ts = Some t1, s_last_ts = Some t2, s_message_count = n\<rparr>"

definition db_S1 :: "string \<Rightarrow> string \<Rightarrow> int \<Rightarrow> message_row list \<Rightarrow> db" where
  "db_S1 t1 t2 n rows =
     \<lparr>sessions = [session_S1_ts t1 t2 n], messages = rows,
      messages_fts = map (\<lambda>r. (m_uuid r, m_content r)) rows\<rparr>"

definition stats_of :: "nat \<Rightarrow> nat \<Rightarrow> nat \<Rightarrow> nat \<Rightarrow> stats" where
  "stats_of f s m e = \<lparr>n_files = f, n_sessions = s, n_messages = m, n_errors = e\<rparr>"









section \<open>Properties\<close>

subsection \<open>Binding and the message insert\<close>

lemma bind_message_uuid:
  "bind_message msg = Inr row \<Longrightarrow> bind_text (msg_uuid msg) = Inr (m_uuid row)"
  by (auto simp: bind_message_def and_then_def split: sum.splits)

text \<open>
  Claim C7. Inserting a message whose uuid is already stored returns normally and leaves
  the whole store (rows and index) as it was, whatever the other fields of the incoming
  message are; the statement counts as executed (the message counter goes up) unless a
  field of the message cannot be bound, in which case the exception is swallowed.
\<close>

theorem reinsert_existing_uuid_noop:
  assumes "bind_text (msg_uuid msg) = Inr (Some u)"
    and "Some u \<in> set (map m_uuid (messages d))"
  shows "insert_message msg (d, st) =
           (d, if isl (bind_message msg) then st else st\<lparr>n_messages := n_messages st + 1\<rparr>)"
proof (cases "bind_message msg")
  case (Inl e)
  then show ?thesis by (simp add: insert_message_def)
next
  case (Inr row)
  from bind_message_uuid [OF Inr] assms(1) have "m_uuid row = Some u" by simp
  with assms(2) have "insert_or_ignore row d = d" by (simp add: insert_or_ignore_def)
  with Inr show ?thesis by (simp add: insert_message_def)
qed

theorem reinsert_existing_uuid_noop_witness:
  "bind_text (msg_uuid msg_U1_changed) = Inr (Some ''U1'')
   \<and> Some ''U1'' \<in> set (map m_uuid (messages db_U1))
   \<and> insert_message msg_U1_changed (db_U1, stats0) = (db_U1, stats0\<lparr>n_messages := 1\<rparr>)"
proof -
  have h1: "bind_text (msg_uuid msg_U1_changed) = Inr (Some ''U1'')"
    by (simp add: msg_U1_changed_def)
  have h2: "Some ''U1'' \<in> set (map m_uuid (messages db_U1))"
    by (simp add: db_U1_def row_U1_def)
  have h3: "\<not> isl (bind_message msg_U1_changed)"
    by (simp add: bind_message_def and_then_def msg_U1_changed_def)
  show ?thesis
    using h1 h2 h3 reinsert_existing_uuid_noop [OF h1 h2, of stats0]
    by (simp add: stats0_def)
qed

subsection \<open>A failure of the parse phase\<close>

text \<open>
  Claim C10. The parse phase of a file writes nothing: when it raises (a read failure or
  any exception while a line is processed), \<^verbatim>\<open>index_jsonl\<close> returns normally with the
  error counter one higher and the store - sessions, messages and index - exactly as it
  was, the other counters included.
\<close>

theorem parse_failure_leaves_store:
  assumes "parse_lines loads repr file ([], []) = Inl e"
  shows "index_jsonl loads repr file (d, st) = Inr (d, st\<lparr>n_errors := n_errors st + 1\<rparr>)"
  using assms by (simp add: index_jsonl_def)

theorem parse_failure_leaves_store_witness:
  "parse_lines (loads_of [entry_U2]) repr0 [Line (dumps entry_U2), ReadError] ([], []) = Inl OSError
   \<and> index_jsonl (loads_of [entry_U2]) repr0 [Line (dumps entry_U2), ReadError] (db_U1, stats0)
       = Inr (db_U1, stats0\<lparr>n_errors := 1\<rparr>)"
proof -
  have h: "parse_lines (loads_of [entry_U2]) repr0 [Line (dumps entry_U2), ReadError] ([], []) = Inl OSError"
    by code_simp
  show ?thesis
    using h parse_failure_leaves_store [OF h, of db_U1 stats0]
    by (simp add: stats0_def)
qed

subsection \<open>The index follows the table\<close>

lemma insert_or_ignore_synced:
  "index_synced d \<Longrightarrow> index_synced (insert_or_ignore row d)"
  by (auto simp: insert_or_ignore_def messages_ai_def index_synced_def)

lemma insert_or_ignore_unique:
  "uuid_unique d \<Longrightarrow> uuid_unique (insert_or_ignore row d)"
  by (auto simp: insert_or_ignore_def messages_ai_def uuid_unique_def)

lemma insert_message_inv:
  "index_synced d \<Longrightarrow> uuid_unique d \<Longrightarrow>
   index_synced (fst (insert_message msg (d, st))) \<and> uuid_unique (fst (insert_message msg (d, st)))"
  by (auto simp: insert_message_def insert_or_ignore_synced insert_or_ignore_unique split: sum.splits)

lemma insert_messages_inv:
  "index_synced (fst acc) \<Longrightarrow> uuid_unique (fst acc) \<Longrightarrow>
   index_synced (fst (insert_messages msgs acc)) \<and> uuid_unique (fst (insert_messages msgs acc))"
proof (induction msgs arbitrary: acc)
  case Nil
  then show ?case by simp
next
  case (Cons msg msgs)
  obtain d st where acc: "acc = (d, st)" by (cases acc)
  with Cons.prems insert_message_inv [of d msg st]
  have "index_synced (fst (insert_message msg acc))" "uuid_unique (fst (insert_message msg acc))"
    by simp_all
  then show ?case using Cons.IH by simp
qed

lemma insert_sessions_messages:
  "insert_sessions sd (d, st) = Inr (d', st') \<Longrightarrow>
     messages d' = messages d \<and> messages_fts d' = messages_fts d"
proof (induction sd arbitrary: d st)
  case Nil
  then show ?case by simp
next
  case (Cons a sd)
  obtain sid sdata where a: "a = (sid, sdata)" by (cases a)
  from Cons.prems a obtain row where
    r: "insert_sessions sd (d\<lparr>sessions := upsert_session row (sessions d)\<rparr>, st\<lparr>n_sessions := n_sessions st + 1\<rparr>) = Inr (d', st')"
    by (auto split: sum.splits)
  from Cons.IH [OF r] show ?case by simp
qed

lemma index_jsonl_inv:
  assumes "index_jsonl loads repr file (d, st) = Inr (d', st')"
    and "index_synced d" and "uuid_unique d"
  shows "index_synced d' \<and> uuid_unique d'"
proof (cases "parse_lines loads repr file ([], [])")
  case (Inl e)
  with assms show ?thesis by (simp add: index_jsonl_def)
next
  case (Inr r)
  obtain sd msgs where r: "r = (sd, msgs)" by (cases r)
  from assms(1) Inr r obtain d1 st1 where
    s: "insert_sessions sd (d, st) = Inr (d1, st1)"
    and m: "d' = fst (insert_messages msgs (d1, st1))"
    by (auto simp: index_jsonl_def split: sum.splits prod.splits)
  from insert_sessions_messages [OF s] assms(2,3)
  have "index_synced d1" "uuid_unique d1"
    by (simp_all add: index_synced_def uuid_unique_def)
  with insert_messages_inv [of "(d1, st1)" msgs] m show ?thesis by simp
qed

lemma index_files_inv:
  "index_files loads repr files (d, st) = Inr (d', st') \<Longrightarrow> index_synced d \<Longrightarrow> uuid_unique d \<Longrightarrow>
     index_synced d' \<and> uuid_unique d'"
proof (induction files arbitrary: d st)
  case Nil
  then show ?case by simp
next
  case (Cons f fs)
  from Cons.prems(1) obtain d1 st1 where
    a: "index_jsonl loads repr f (d, st) = Inr (d1, st1)"
    and b: "index_files loads repr fs (d1, st1) = Inr (d', st')"
    by (auto split: sum.splits)
  from index_jsonl_inv [OF a Cons.prems(2,3)] Cons.IH [OF b] show ?case by simp
qed

lemma unique_posting:
  "distinct (filter (\<lambda>u. u \<noteq> None) (map m_uuid rows)) \<Longrightarrow> r \<in> set rows \<Longrightarrow> m_uuid r = Some u \<Longrightarrow>
     filter (\<lambda>p. fst p = Some u) (map (\<lambda>r. (m_uuid r, m_content r)) rows) = [(Some u, m_content r)]"
proof (induction rows)
  case Nil
  then show ?case by simp
next
  case (Cons a rows)
  show ?case
  proof (cases "m_uuid a = Some u")
    case True
    with Cons.prems(1) have "Some u \<notin> set (map m_uuid rows)" by auto
    then have e: "filter (\<lambda>p. fst p = Some u) (map (\<lambda>r. (m_uuid r, m_content r)) rows) = []"
      by (auto simp: filter_empty_conv image_iff)
    have "r \<notin> set rows"
    proof
      assume "r \<in> set rows"
      then have "m_uuid r \<in> set (map m_uuid rows)" by simp
      with Cons.prems(3) \<open>Some u \<notin> set (map m_uuid rows)\<close> show False by simp
    qed
    with Cons.prems(2) have "r = a" by simp
    with True e show ?thesis by simp
  next
    case False
    with Cons.prems have "r \<in> set rows" by auto
    moreover from Cons.prems(1) have "distinct (filter (\<lambda>u. u \<noteq> None) (map m_uuid rows))"
      by (auto split: if_splits)
    ultimately show ?thesis using Cons.IH Cons.prems(3) False by simp
  qed
qed

lemma synced_unique_bijection:
  "index_synced d \<Longrightarrow> uuid_unique d \<Longrightarrow> index_bijection d"
  unfolding index_bijection_def
proof (intro conjI ballI allI impI)
  fix r u assume "index_synced d" "uuid_unique d" "r \<in> set (messages d)" "m_uuid r = Some u"
  then show "filter (\<lambda>p. fst p = Some u) (messages_fts d) = [(Some u, m_content r)]"
    using unique_posting [of "messages d" r u] by (simp add: index_synced_def uuid_unique_def)
next
  fix p u assume "index_synced d" "p \<in> set (messages_fts d)" "fst p = Some u"
  then have "p \<in> set (map (\<lambda>r. (m_uuid r, m_content r)) (messages d))"
    by (simp add: index_synced_def)
  then obtain r where "r \<in> set (messages d)" "p = (m_uuid r, m_content r)" by auto
  with \<open>fst p = Some u\<close> have "m_uuid r = Some u" by simp
  with \<open>r \<in> set (messages d)\<close> show "Some u \<in> set (map m_uuid (messages d))"
    by (metis image_eqI set_map)
qed

text \<open>
  Claim C2. In every store reached from the empty one by indexing any files, and then by
  any further sequence of message inserts, the index is in bijection with the table: a
  row with uuid \<open>u\<close> has exactly one posting for \<open>u\<close>, holding the content of that row,
  and a posting for \<open>u\<close> has its row; moreover the postings are the rows' uuid and
  content in the same order, and no uuid occurs twice. One insert statement changes the
  index if and only if it changes the table, and it leaves the index alone when the uuid
  is already stored.
\<close>

theorem index_bijection_after_inserts:
  assumes "index_files loads repr fs (init_db, stats0) = Inr (d, st)"
  shows "index_bijection (fst (insert_messages msgs (d, st')))
         \<and> index_synced (fst (insert_messages msgs (d, st')))
         \<and> uuid_unique (fst (insert_messages msgs (d, st')))
         \<and> ((messages_fts (insert_or_ignore row d0) \<noteq> messages_fts d0)
              = (messages (insert_or_ignore row d0) \<noteq> messages d0))
         \<and> (m_uuid row \<noteq> None \<and> m_uuid row \<in> set (map m_uuid (messages d0)) \<longrightarrow>
              messages_fts (insert_or_ignore row d0) = messages_fts d0)"
proof -
  have "index_synced init_db" "uuid_unique init_db"
    by (simp_all add: index_synced_def uuid_unique_def init_db_def)
  with index_files_inv [OF assms] have "index_synced d" "uuid_unique d" by simp_all
  with insert_messages_inv [of "(d, st')" msgs]
  have i: "index_synced (fst (insert_messages msgs (d, st')))"
    "uuid_unique (fst (insert_messages msgs (d, st')))" by simp_all
  have j: "(messages_fts (insert_or_ignore row d0) \<noteq> messages_fts d0)
          = (messages (insert_or_ignore row d0) \<noteq> messages d0)"
    by (simp add: insert_or_ignore_def messages_ai_def)
  have k: "m_uuid row \<noteq> None \<and> m_uuid row \<in> set (map m_uuid (messages d0)) \<longrightarrow>
              messages_fts (insert_or_ignore row d0) = messages_fts d0"
    by (simp add: insert_or_ignore_def)
  from i j k synced_unique_bijection [OF i] show ?thesis by (intro conjI) assumption+
qed

theorem index_bijection_after_inserts_witness:
  "index_files (loads_of [entry_U1]) repr0 [[Line (dumps entry_U1)], [Line (dumps entry_U1)]]
       (init_db, stats0)
     = Inr (db_U1_twice, \<lparr>n_files = 2, n_sessions = 2, n_messages = 2, n_errors = 0\<rparr>)
   \<and> index_bijection (fst (insert_messages [msg_U1_changed] (db_U1_twice, stats0)))
   \<and> index_synced (fst (insert_messages [msg_U1_changed] (db_U1_twice, stats0)))
   \<and> uuid_unique (fst (insert_messages [msg_U1_changed] (db_U1_twice, stats0)))
   \<and> ((messages_fts (insert_or_ignore row_U1 db_U1) \<noteq> messages_fts db_U1)
        = (messages (insert_or_ignore row_U1 db_U1) \<noteq> messages db_U1))
   \<and> m_uuid row_U1 \<noteq> None
   \<and> m_uuid row_U1 \<in> set (map m_uuid (messages db_U1))
   \<and> messages_fts (insert_or_ignore row_U1 db_U1) = messages_fts db_U1"
proof -
  have u: "m_uuid row_U1 \<noteq> None \<and> m_uuid row_U1 \<in> set (map m_uuid (messages db_U1))"
    by (simp add: db_U1_def row_U1_def)
  have h: "index_files (loads_of [entry_U1]) repr0 [[Line (dumps entry_U1)], [Line (dumps entry_U1)]]
             (init_db, stats0)
           = Inr (db_U1_twice, \<lparr>n_files = 2, n_sessions = 2, n_messages = 2, n_errors = 0\<rparr>)"
    by code_simp
  show ?thesis
    using h u index_bijection_after_inserts [OF h, of "[msg_U1_changed]" stats0 row_U1 db_U1]
    by blast
qed

subsection \<open>Indexing a file again\<close>











subsection \<open>Session counts\<close>








lemma bind_session_fields:
  "bind_session sid sdata = Inr row \<Longrightarrow>
     bind_text sid = Inr (s_session_id row) \<and> s_message_count row = int (sd_count sdata)
     \<and> bind_text (sd_first_ts sdata) = Inr (s_first_ts row) \<and> bind_text (sd_last_ts sdata) = Inr (s_last_ts row)"
  by (auto simp: bind_session_def and_then_def split: sum.splits)


lemma insert_messages_sessions:
  "sessions (fst (insert_messages msgs acc)) = sessions (fst acc)"
proof (induction msgs arbitrary: acc)
  case Nil
  then show ?case by simp
next
  case (Cons msg msgs)
  have "sessions (fst (insert_message msg acc)) = sessions (fst acc)"
    by (cases acc) (auto simp: insert_message_def insert_or_ignore_def messages_ai_def split: sum.splits)
  with Cons.IH [of "insert_message msg acc"] show ?case by simp
qed









subsection \<open>Order of the two timestamps of a session\<close>

text \<open>
  The session dict of a pass describes the retained events: \<open>first_ts\<close> and \<open>last_ts\<close> of
  an entry are the timestamps of the first and of the last retained event of the session
  in file order, and \<open>count\<close> is the number of its retained events.
\<close>

lemma key_eq_refl [simp]: "key_eq a a"
  by (simp add: key_eq_def)

lemma key_eq_sym: "key_eq a b \<Longrightarrow> key_eq b a"
  by (simp add: key_eq_def)

lemma key_eq_trans: "key_eq a b \<Longrightarrow> key_eq b c \<Longrightarrow> key_eq a c"
  by (simp add: key_eq_def)

lemma dict_has_iff: "dict_has sd k \<longleftrightarrow> py_key k \<in> set (map (\<lambda>(k, d). py_key k) sd)"
  by (induction sd) (auto simp: dict_has_def key_eq_def)

lemma dict_upd_keys: "map (\<lambda>(k, d). py_key k) (dict_upd f k sd) = map (\<lambda>(k, d). py_key k) sd"
  by (induction sd) auto

lemma dict_upd_set:
  "keys_distinct sd \<Longrightarrow> (k', d') \<in> set (dict_upd f k sd) \<Longrightarrow>
     (\<exists>d. (k', d) \<in> set sd \<and> d' = (if key_eq k' k then f d else d))"
proof (induction sd)
  case Nil
  then show ?case by simp
next
  case (Cons a sd)
  obtain ka da where a: "a = (ka, da)" by (cases a)
  from Cons.prems(1) a have dist: "keys_distinct sd" and notin: "py_key ka \<notin> set (map (\<lambda>(k, d). py_key k) sd)"
    by (simp_all add: keys_distinct_def)
  show ?case
  proof (cases "key_eq ka k")
    case True
    show ?thesis
    proof (cases "(k', d') = (ka, f da)")
      case True
      with \<open>key_eq ka k\<close> a show ?thesis by auto
    next
      case False
      with Cons.prems(2) a \<open>key_eq ka k\<close> have in_sd: "(k', d') \<in> set sd" by auto
      then have "py_key k' \<in> set (map (\<lambda>(k, d). py_key k) sd)" by force
      with notin have "py_key k' \<noteq> py_key ka" by auto
      with \<open>key_eq ka k\<close> have "\<not> key_eq k' k" by (auto simp: key_eq_def)
      with in_sd show ?thesis by auto
    qed
  next
    case False
    show ?thesis
    proof (cases "(k', d') = (ka, da)")
      case True
      with False a show ?thesis by auto
    next
      case ne: False
      with Cons.prems(2) a False have "(k', d') \<in> set (dict_upd f k sd)" by auto
      from Cons.IH [OF dist this] show ?thesis by auto
    qed
  qed
qed


lemma session_events_append:
  "session_events (msgs @ [m]) sid
     = session_events msgs sid @ (if key_eq (msg_session_id m) sid then [m] else [])"
  by (simp add: session_events_def)

lemma track_session_inv:
  assumes inv: "entry_of_events sd msgs" and dist: "keys_distinct sd"
    and cover: "\<forall>m \<in> set msgs. dict_has sd (msg_session_id m)"
    and m: "msg_session_id m = sid" "msg_timestamp m = dict_get entry ''timestamp'' (JStr [])"
  shows "entry_of_events (track_session entry sid sd) (msgs @ [m])
         \<and> keys_distinct (track_session entry sid sd)
         \<and> (\<forall>m' \<in> set (msgs @ [m]). dict_has (track_session entry sid sd) (msg_session_id m'))"
proof (cases "dict_has sd sid")
  case False
  then have t: "track_session entry sid sd = sd @
               [(sid,
                 \<lparr>sd_project = dict_get entry ''cwd'' (JStr []),
                  sd_cwd = dict_get entry ''cwd'' (JStr []),
                  sd_git_branch = dict_get entry ''gitBranch'' (JStr []),
                  sd_first_ts = dict_get entry ''timestamp'' (JStr []),
                  sd_last_ts = dict_get entry ''timestamp'' (JStr []),
                  sd_count = 0 + 1\<rparr>)]"
    by (simp add: track_session_def)
  have none: "session_events msgs sid = []"
  proof (rule ccontr)
    assume "session_events msgs sid \<noteq> []"
    then obtain m' where "m' \<in> set msgs" "key_eq (msg_session_id m') sid"
      by (auto simp: session_events_def filter_empty_conv)
    with cover have "dict_has sd (msg_session_id m')" by simp
    with \<open>key_eq (msg_session_id m') sid\<close> have "dict_has sd sid"
      by (simp add: dict_has_iff key_eq_def)
    with False show False by simp
  qed
  have old: "session_events (msgs @ [m]) k = session_events msgs k" if "(k, d) \<in> set sd" for k d
  proof -
    from that have "dict_has sd k" by (force simp: dict_has_iff)
    with False have "\<not> key_eq sid k" by (auto simp: dict_has_iff key_eq_def)
    with m show ?thesis by (simp add: session_events_append)
  qed
  have e: "entry_of_events (track_session entry sid sd) (msgs @ [m])"
    unfolding entry_of_events_def t
  proof (intro ballI)
    fix x assume x: "x \<in> set (sd @ [(sid,
                 \<lparr>sd_project = dict_get entry ''cwd'' (JStr []),
                  sd_cwd = dict_get entry ''cwd'' (JStr []),
                  sd_git_branch = dict_get entry ''gitBranch'' (JStr []),
                  sd_first_ts = dict_get entry ''timestamp'' (JStr []),
                  sd_last_ts = dict_get entry ''timestamp'' (JStr []),
                  sd_count = 0 + 1\<rparr>)])"
    obtain k d where kd: "x = (k, d)" by (cases x)
    show "case x of (sid, d) \<Rightarrow>
        session_events (msgs @ [m]) sid \<noteq> []
        \<and> sd_first_ts d = msg_timestamp (hd (session_events (msgs @ [m]) sid))
        \<and> sd_last_ts d = msg_timestamp (last (session_events (msgs @ [m]) sid))
        \<and> sd_count d = length (session_events (msgs @ [m]) sid)"
    proof (cases "(k, d) \<in> set sd")
      case True
      with inv old [OF True] kd show ?thesis by (auto simp: entry_of_events_def)
    next
      case False
      with x kd have "k = sid" "d = \<lparr>sd_project = dict_get entry ''cwd'' (JStr []),
                  sd_cwd = dict_get entry ''cwd'' (JStr []),
                  sd_git_branch = dict_get entry ''gitBranch'' (JStr []),
                  sd_first_ts = dict_get entry ''timestamp'' (JStr []),
                  sd_last_ts = dict_get entry ''timestamp'' (JStr []),
                  sd_count = 0 + 1\<rparr>" by auto
      with kd none m show ?thesis by (simp add: session_events_append)
    qed
  qed
  from False dist have k: "keys_distinct (track_session entry sid sd)"
    by (simp add: t keys_distinct_def dict_has_iff)
  have c: "\<forall>m' \<in> set (msgs @ [m]). dict_has (track_session entry sid sd) (msg_session_id m')"
    using cover m by (auto simp: t dict_has_iff)
  from e k c show ?thesis by simp
next
  case True
  let ?f = "\<lambda>d. d\<lparr>sd_last_ts := dict_get entry ''timestamp'' (JStr []), sd_count := sd_count d + 1\<rparr>"
  from True have t: "track_session entry sid sd = dict_upd ?f sid sd"
    by (simp add: track_session_def)
  have e: "entry_of_events (track_session entry sid sd) (msgs @ [m])"
    unfolding entry_of_events_def t
  proof (intro ballI)
    fix x assume x: "x \<in> set (dict_upd ?f sid sd)"
    obtain k d' where kd: "x = (k, d')" by (cases x)
    from dict_upd_set [OF dist] x kd obtain d where
      d: "(k, d) \<in> set sd" "d' = (if key_eq k sid then ?f d else d)" by blast
    from inv d(1) have i: "session_events msgs k \<noteq> []"
        "sd_first_ts d = msg_timestamp (hd (session_events msgs k))"
        "sd_last_ts d = msg_timestamp (last (session_events msgs k))"
        "sd_count d = length (session_events msgs k)"
      by (auto simp: entry_of_events_def)
    show "case x of (sid, d) \<Rightarrow>
        session_events (msgs @ [m]) sid \<noteq> []
        \<and> sd_first_ts d = msg_timestamp (hd (session_events (msgs @ [m]) sid))
        \<and> sd_last_ts d = msg_timestamp (last (session_events (msgs @ [m]) sid))
        \<and> sd_count d = length (session_events (msgs @ [m]) sid)"
    proof (cases "key_eq k sid")
      case True
      then have "key_eq sid k" by (rule key_eq_sym)
      with True i d(2) m kd show ?thesis by (simp add: session_events_append)
    next
      case False
      then have "\<not> key_eq sid k" using key_eq_sym by blast
      with False i d(2) m kd show ?thesis by (simp add: session_events_append)
    qed
  qed
  from dist have k: "keys_distinct (track_session entry sid sd)"
    by (simp add: t keys_distinct_def dict_upd_keys)
  have c: "\<forall>m' \<in> set (msgs @ [m]). dict_has (track_session entry sid sd) (msg_session_id m')"
    using cover m True by (auto simp: t dict_has_iff dict_upd_keys)
  from e k c show ?thesis by simp
qed

lemma process_line_cases:
  assumes "process_line loads repr raw (sd, msgs) = Inr acc'"
  shows "acc' = (sd, msgs)
         \<or> (\<exists>entry m. acc' = (track_session entry (dict_get entry ''sessionId'' (JStr [])) sd, msgs @ [m])
               \<and> msg_session_id m = dict_get entry ''sessionId'' (JStr [])
               \<and> msg_timestamp m = dict_get entry ''timestamp'' (JStr []))"
proof (cases "strip raw = []")
  case True
  with assms show ?thesis by (simp add: process_line_def)
next
  case ne: False
  show ?thesis
  proof (cases "loads (strip raw)")
    case None
    with ne assms show ?thesis by (simp add: process_line_def)
  next
    case (Some decoded)
    show ?thesis
    proof (cases decoded)
      case (JObj entry)
      let ?sid = "dict_get entry ''sessionId'' (JStr [])"
      let ?keep = "dict_get entry ''type'' (JStr []) \<in> set [JStr ''user'', JStr ''assistant'', JStr ''summary'']
                   \<and> truthy ?sid"
      show ?thesis
      proof (cases ?keep)
        case False
        with ne Some JObj assms show ?thesis
          by (auto simp: process_line_def Let_def split: if_splits)
      next
        case True
        with ne Some JObj assms have
          "fst acc' = track_session entry ?sid sd \<and> snd acc' = msgs @ [last (snd acc')]
           \<and> msg_session_id (last (snd acc')) = ?sid
           \<and> msg_timestamp (last (snd acc')) = dict_get entry ''timestamp'' (JStr [])"
          by (auto simp: process_line_def Let_def split: if_splits sum.splits prod.splits json.splits)
        then have "acc' = (track_session entry ?sid sd, msgs @ [last (snd acc')])
           \<and> msg_session_id (last (snd acc')) = ?sid
           \<and> msg_timestamp (last (snd acc')) = dict_get entry ''timestamp'' (JStr [])"
          by (metis prod.collapse)
        then show ?thesis by blast
      qed
    qed (use ne Some assms in \<open>simp_all add: process_line_def\<close>)
  qed
qed

lemma process_line_inv:
  assumes "process_line loads repr raw acc = Inr acc'" and "pass_inv acc"
  shows "pass_inv acc'"
proof -
  obtain sd msgs where acc: "acc = (sd, msgs)" by (cases acc)
  from process_line_cases [of loads repr raw sd msgs acc'] assms(1) acc
  consider "acc' = (sd, msgs)"
    | entry m where "acc' = (track_session entry (dict_get entry ''sessionId'' (JStr [])) sd, msgs @ [m])"
        "msg_session_id m = dict_get entry ''sessionId'' (JStr [])"
        "msg_timestamp m = dict_get entry ''timestamp'' (JStr [])"
    by blast
  then show ?thesis
  proof cases
    case 1
    with assms(2) acc show ?thesis by simp
  next
    case 2
    from assms(2) acc have "entry_of_events sd msgs" "keys_distinct sd"
      "\<forall>m \<in> set msgs. dict_has sd (msg_session_id m)"
      by (simp_all add: pass_inv_def)
    from track_session_inv [OF this 2(2,3)] 2(1) show ?thesis by (simp add: pass_inv_def)
  qed
qed

lemma parse_lines_inv:
  "parse_lines loads repr f acc = Inr acc' \<Longrightarrow> pass_inv acc \<Longrightarrow> pass_inv acc'"
proof (induction f arbitrary: acc)
  case Nil
  then show ?case by simp
next
  case (Cons a f)
  show ?case
  proof (cases a)
    case (Line raw)
    with Cons.prems(1) obtain acc1 where
      p: "process_line loads repr raw acc = Inr acc1"
      and r: "parse_lines loads repr f acc1 = Inr acc'"
      by (auto split: sum.splits)
    from Cons.IH [OF r process_line_inv [OF p Cons.prems(2)]] show ?thesis .
  next
    case ReadError
    with Cons.prems show ?thesis by simp
  qed
qed

lemma parse_lines_entries:
  assumes "parse_lines loads repr f ([], []) = Inr (sd, msgs)"
  shows "entry_of_events sd msgs"
proof -
  have "pass_inv ([], [])"
    by (simp add: pass_inv_def entry_of_events_def keys_distinct_def)
  from parse_lines_inv [OF assms this] show ?thesis by (simp add: pass_inv_def)
qed

lemma session_events_key_eq:
  "key_eq a b \<Longrightarrow> session_events msgs a = session_events msgs b"
  by (simp add: session_events_def key_eq_def)

lemma pass_ordered_entries:
  assumes p: "parse_lines loads repr f ([], []) = Inr (sd, msgs)"
    and o: "pass_ordered loads repr f"
  shows "list_all (\<lambda>(sid, sdata). entry_ordered sdata) sd"
  unfolding list_all_iff
proof (intro ballI)
  fix x assume x: "x \<in> set sd"
  obtain sid d where xd: "x = (sid, d)" by (cases x)
  from parse_lines_entries [OF p] x xd have
    ne: "session_events msgs sid \<noteq> []"
    and f: "sd_first_ts d = msg_timestamp (hd (session_events msgs sid))"
    and l: "sd_last_ts d = msg_timestamp (last (session_events msgs sid))"
    by (auto simp: entry_of_events_def)
  from ne have "hd (session_events msgs sid) \<in> set (session_events msgs sid)" by simp
  then have m: "hd (session_events msgs sid) \<in> set msgs"
    and k: "key_eq (msg_session_id (hd (session_events msgs sid))) sid"
    by (simp_all add: session_events_def)
  from o p m have "session_ordered msgs (hd (session_events msgs sid))"
    by (simp add: pass_ordered_def retained_def list_all_iff)
  with session_events_key_eq [OF k, of msgs] f l have "entry_ordered d"
    by (simp add: session_ordered_def entry_ordered_def)
  with xd show "case x of (sid, sdata) \<Rightarrow> entry_ordered sdata" by simp
qed

lemma bind_session_ordered:
  "bind_session sid sdata = Inr row \<Longrightarrow> entry_ordered sdata \<Longrightarrow> ts_ordered row"
  using bind_session_fields [of sid sdata row]
  by (auto simp: entry_ordered_def ts_le_def ts_ordered_def split: option.splits sum.splits)

lemma upsert_session_ordered:
  assumes "ts_ordered new" and "\<forall>r \<in> set rows. ts_ordered r"
  shows "\<forall>r \<in> set (upsert_session new rows). ts_ordered r"
proof -
  have "ts_ordered (merged r new)" if "ts_ordered r" for r
    using that assms(1)
    by (auto simp: ts_ordered_def merged_def max_def split: option.splits)
  with assms show ?thesis
    by (auto simp: upsert_session_def merged_def)
qed

lemma insert_sessions_ordered:
  "insert_sessions sd (d, st) = Inr (d', st') \<Longrightarrow> list_all (\<lambda>(sid, sdata). entry_ordered sdata) sd \<Longrightarrow>
     \<forall>r \<in> set (sessions d). ts_ordered r \<Longrightarrow> \<forall>r \<in> set (sessions d'). ts_ordered r"
proof (induction sd arbitrary: d st)
  case Nil
  then show ?case by simp
next
  case (Cons a sd)
  obtain sid sdata where a: "a = (sid, sdata)" by (cases a)
  from Cons.prems(1) a obtain row where
    b: "bind_session sid sdata = Inr row"
    and r: "insert_sessions sd (d\<lparr>sessions := upsert_session row (sessions d)\<rparr>, st\<lparr>n_sessions := n_sessions st + 1\<rparr>) = Inr (d', st')"
    by (auto split: sum.splits)
  from Cons.prems(2) a have e: "entry_ordered sdata" and l: "list_all (\<lambda>(sid, sdata). entry_ordered sdata) sd"
    by simp_all
  from upsert_session_ordered [OF bind_session_ordered [OF b e] Cons.prems(3)]
  have "\<forall>r \<in> set (sessions (d\<lparr>sessions := upsert_session row (sessions d)\<rparr>)). ts_ordered r" by simp
  from Cons.IH [OF r l this] show ?case .
qed

lemma index_jsonl_ordered:
  assumes "index_jsonl loads repr f (d, st) = Inr (d1, st1)"
    and "pass_ordered loads repr f" and "\<forall>r \<in> set (sessions d). ts_ordered r"
  shows "\<forall>r \<in> set (sessions d1). ts_ordered r"
proof (cases "parse_lines loads repr f ([], [])")
  case (Inl e)
  with assms show ?thesis by (simp add: index_jsonl_def)
next
  case (Inr p)
  obtain sd msgs where p: "p = (sd, msgs)" by (cases p)
  from assms(1) Inr p obtain da sta where
    s: "insert_sessions sd (d, st) = Inr (da, sta)"
    and m: "d1 = fst (insert_messages msgs (da, sta))"
    by (auto simp: index_jsonl_def split: sum.splits prod.splits)
  from assms(2) Inr p have "list_all (\<lambda>(sid, sdata). entry_ordered sdata) sd"
    by (simp add: pass_ordered_entries)
  from insert_sessions_ordered [OF s this assms(3)] m insert_messages_sessions [of msgs "(da, sta)"]
  show ?thesis by simp
qed

text \<open>
  Claim C6, as the code has it. Within one pass \<open>first_ts\<close> is the timestamp of the first
  retained event of a session and \<open>last_ts\<close> that of its last retained event in file
  order. When in every file indexed so far the first retained event of each session has
  a timestamp that is at most the timestamp of the last one (both stored as texts),
  every row of \<open>sessions\<close> has \<open>first_ts \<le> last_ts\<close>.
\<close>

theorem first_ts_le_last_ts:
  assumes "index_files loads repr fs (init_db, stats0) = Inr (d, st)"
    and "\<forall>f \<in> set fs. pass_ordered loads repr f"
  shows "\<forall>r \<in> set (sessions d). ts_ordered r"
proof -
  have "index_files loads repr fs (d0, st0) = Inr (d, st) \<Longrightarrow> \<forall>f \<in> set fs. pass_ordered loads repr f \<Longrightarrow>
        \<forall>r \<in> set (sessions d0). ts_ordered r \<Longrightarrow> \<forall>r \<in> set (sessions d). ts_ordered r" for d0 st0
  proof (induction fs arbitrary: d0 st0)
    case Nil
    then show ?case by simp
  next
    case (Cons f fs)
    from Cons.prems(1) obtain d1 st1 where
      a: "index_jsonl loads repr f (d0, st0) = Inr (d1, st1)"
      and b: "index_files loads repr fs (d1, st1) = Inr (d, st)"
      by (auto split: sum.splits)
    from Cons.prems(2) have f: "pass_ordered loads repr f" and fs: "\<forall>f \<in> set fs. pass_ordered loads repr f"
      by simp_all
    from Cons.IH [OF b fs index_jsonl_ordered [OF a f Cons.prems(3)]] show ?case .
  qed
  from this [OF assms] show ?thesis by (simp add: init_db_def)
qed

theorem first_ts_le_last_ts_witness:
  "index_files (loads_of [entry_U1, entry_U2]) repr0
       [[Line (dumps entry_U1), Line (dumps entry_U2)], [Line (dumps entry_U1)]] (init_db, stats0)
     = Inr (db_S1 ''2024-01-01T00:00:00Z'' ''2024-01-02T00:00:00Z'' 3 [row_U1, row_U2], stats_of 2 2 3 0)
   \<and> list_all (pass_ordered (loads_of [entry_U1, entry_U2]) repr0)
        [[Line (dumps entry_U1), Line (dumps entry_U2)], [Line (dumps entry_U1)]]
   \<and> list_all ts_ordered
        (sessions (db_S1 ''2024-01-01T00:00:00Z'' ''2024-01-02T00:00:00Z'' 3 [row_U1, row_U2]))"
proof -
  have h1: "index_files (loads_of [entry_U1, entry_U2]) repr0
              [[Line (dumps entry_U1), Line (dumps entry_U2)], [Line (dumps entry_U1)]] (init_db, stats0)
            = Inr (db_S1 ''2024-01-01T00:00:00Z'' ''2024-01-02T00:00:00Z'' 3 [row_U1, row_U2], stats_of 2 2 3 0)"
    by code_simp
  have l: "list_all (pass_ordered (loads_of [entry_U1, entry_U2]) repr0)
             [[Line (dumps entry_U1), Line (dumps entry_U2)], [Line (dumps entry_U1)]]"
    by code_simp
  then have h2: "\<forall>f \<in> set [[Line (dumps entry_U1), Line (dumps entry_U2)], [Line (dumps entry_U1)]].
                   pass_ordered (loads_of [entry_U1, entry_U2]) repr0 f"
    by (simp only: list_all_iff)
  show ?thesis
    using h1 l first_ts_le_last_ts [OF h1 h2]
    by (simp only: list_all_iff simp_thms)
qed

text \<open>
  Claim C6, as stated, fails: within a pass \<open>last_ts\<close> is overwritten by every later event
  of the session. A file that holds the later record first gives a new session whose
  \<open>first_ts\<close> is greater than its \<open>last_ts\<close>.
\<close>

theorem first_ts_le_last_ts_counterexample:
  "index_jsonl (loads_of [entry_U1, entry_U2]) repr0 [Line (dumps entry_U2), Line (dumps entry_U1)]
       (init_db, stats0)
     = Inr (db_S1 ''2024-01-02T00:00:00Z'' ''2024-01-01T00:00:00Z'' 2 [row_U2, row_U1], stats_of 1 1 2 0)
   \<and> \<not> ts_ordered (session_S1_ts ''2024-01-02T00:00:00Z'' ''2024-01-01T00:00:00Z'' 2)
   \<and> sessions (db_S1 ''2024-01-02T00:00:00Z'' ''2024-01-01T00:00:00Z'' 2 [row_U2, row_U1])
       = [session_S1_ts ''2024-01-02T00:00:00Z'' ''2024-01-01T00:00:00Z'' 2]"
  by code_simp

subsection \<open>Lines that are passed over, and lines that end the file\<close>

text \<open>
  A line of one of the four kinds leaves the state of the pass as it is, so a file gives
  the same result with and without such lines.
\<close>

lemma discarded_line_skipped:
  "discarded_line loads raw \<Longrightarrow> process_line loads repr raw acc = Inr acc"
  by (cases acc) (auto simp: discarded_line_def process_line_def Let_def split: option.splits json.splits)

lemma parse_lines_without_discarded:
  "parse_lines loads repr (filter (kept loads) f) acc = parse_lines loads repr f acc"
proof (induction f arbitrary: acc)
  case Nil
  then show ?case by simp
next
  case (Cons a f)
  show ?case
  proof (cases a)
    case (Line raw)
    with Cons.IH discarded_line_skipped [of loads raw repr acc] show ?thesis
      by (cases "discarded_line loads raw") (auto split: sum.splits)
  next
    case ReadError
    then show ?thesis by simp
  qed
qed

text \<open>
  Claim C3. A line that decodes to a JSON value that is not a record (here the line
  \<^verbatim>\<open>42\<close>) is not discarded: \<^verbatim>\<open>entry.get\<close> raises, the handler around the whole
  file counts one error and returns, and the valid record of the line before is not
  stored. Without that line the same record is indexed.
\<close>

theorem non_record_line_aborts_file:
  "loads_of [entry_U1, JInt 42] ''42'' = Some (JInt 42)
   \<and> index_jsonl (loads_of [entry_U1, JInt 42]) repr0 [Line (dumps entry_U1), Line ''42'']
         (init_db, stats0)
       = Inr (init_db, stats_of 0 0 0 1)
   \<and> index_jsonl (loads_of [entry_U1, JInt 42]) repr0 [Line (dumps entry_U1)] (init_db, stats0)
       = Inr (db_U1, stats_of 1 1 1 0)"
  by code_simp

subsection \<open>Normalisation of a block sequence\<close>

lemma block_type_non_dict [simp]:
  "block_type JNull = JNull" "block_type (JBool b) = JNull" "block_type (JInt i) = JNull"
  "block_type (JStr s) = JNull" "block_type (JArr xs) = JNull"
  by (simp_all add: block_type_def)







subsection \<open>The order of search results\<close>












subsection \<open>Showing a session\<close>







lemma display_short: "length c \<le> n \<Longrightarrow> display n marker c = c"
  by (simp add: display_def)

lemma display_long: "n < length c \<Longrightarrow> display n marker c = take n c @ marker"
  by (simp add: display_def)













end
